theory Spec2Isabelle
  imports Complex_Main
begin

section \<open>The circuit object of the quantum SDK\<close>

text \<open>
  The notebook builds its circuits through the SDK's \<^verbatim>\<open>QuantumCircuit\<close> class. A circuit
  is a register size and the list of instructions appended so far; its method \<^verbatim>\<open>m\<close> is
  \<open>circuit_m\<close> here where the bare name would clash. The SDK raises
  \<^verbatim>\<open>CircuitError\<close> when an instruction is appended with a bad qubit argument and
  \<^verbatim>\<open>QiskitError\<close> when a conversion or a simulation result fails; both are values here.
\<close>

datatype error = CircuitError | QiskitError

datatype instruction =
    H nat
  | X nat
  | Z nat
  | CZ nat nat
  | MCT "nat list" nat
  | Gate string "instruction list" "nat list"
  | Barrier "nat list"
  | Measure nat nat
  | SaveStatevector

record circuit =
  num_qubits :: nat
  num_clbits :: nat
  data :: "instruction list"

text \<open>The result of \<^verbatim>\<open>to_gate\<close>: a named composite gate with the circuit as its definition.\<close>

record gate =
  gate_name :: string
  gate_num_qubits :: nat
  gate_definition :: "instruction list"

definition QuantumCircuit :: "nat \<Rightarrow> circuit" where
  "QuantumCircuit n = \<lparr>num_qubits = n, num_clbits = 0, data = []\<rparr>"

text \<open>
  An integer qubit argument indexes the circuit's qubit list as a Python list is indexed:
  \<open>-n \<le> q < 0\<close> counts from the end, anything outside \<open>-n \<le> q < n\<close> raises.
\<close>

definition qubit_index :: "circuit \<Rightarrow> int \<Rightarrow> error + nat" where
  "qubit_index c q =
     (let n = int (num_qubits c)
      in if 0 \<le> q \<and> q < n then Inr (nat q)
         else if - n \<le> q \<and> q < 0 then Inr (nat (n + q))
         else Inl CircuitError)"

fun qubit_indices :: "circuit \<Rightarrow> int list \<Rightarrow> error + nat list" where
  "qubit_indices c [] = Inr []"
| "qubit_indices c (q # qs) =
     (case qubit_index c q of
        Inl e \<Rightarrow> Inl e
      | Inr k \<Rightarrow> (case qubit_indices c qs of Inl e \<Rightarrow> Inl e | Inr ks \<Rightarrow> Inr (k # ks)))"

definition append_instruction :: "circuit \<Rightarrow> instruction \<Rightarrow> circuit" where
  "append_instruction c i = c\<lparr>data := data c @ [i]\<rparr>"

definition circuit_h :: "circuit \<Rightarrow> int \<Rightarrow> error + circuit" where
  "circuit_h c q = (case qubit_index c q of Inl e \<Rightarrow> Inl e | Inr k \<Rightarrow> Inr (append_instruction c (H k)))"

definition circuit_x :: "circuit \<Rightarrow> int \<Rightarrow> error + circuit" where
  "circuit_x c q = (case qubit_index c q of Inl e \<Rightarrow> Inl e | Inr k \<Rightarrow> Inr (append_instruction c (X k)))"

definition circuit_z :: "circuit \<Rightarrow> int \<Rightarrow> error + circuit" where
  "circuit_z c q = (case qubit_index c q of Inl e \<Rightarrow> Inl e | Inr k \<Rightarrow> Inr (append_instruction c (Z k)))"

text \<open>A two-qubit gate on twice the same qubit is refused (duplicate qubit arguments).\<close>

definition circuit_cz :: "circuit \<Rightarrow> int \<Rightarrow> int \<Rightarrow> error + circuit" where
  "circuit_cz c a b =
     (case qubit_index c a of
        Inl e \<Rightarrow> Inl e
      | Inr ka \<Rightarrow>
          (case qubit_index c b of
             Inl e \<Rightarrow> Inl e
           | Inr kb \<Rightarrow> if ka = kb then Inl CircuitError else Inr (append_instruction c (CZ ka kb))))"

text \<open>
  The multi-controlled Toffoli needs at least one control, and its controls and target are
  pairwise different qubits.
\<close>

definition circuit_mct :: "circuit \<Rightarrow> int list \<Rightarrow> int \<Rightarrow> error + circuit" where
  "circuit_mct c controls target =
     (case qubit_indices c controls of
        Inl e \<Rightarrow> Inl e
      | Inr ks \<Rightarrow>
          (case qubit_index c target of
             Inl e \<Rightarrow> Inl e
           | Inr t \<Rightarrow>
               if ks = [] \<or> \<not> distinct (ks @ [t]) then Inl CircuitError
               else Inr (append_instruction c (MCT ks t))))"

text \<open>Statement sequencing: an exception of the first statement skips the rest.\<close>

definition and_then :: "error + 'a \<Rightarrow> ('a \<Rightarrow> error + 'b) \<Rightarrow> error + 'b" where
  "and_then r f = (case r of Inl e \<Rightarrow> Inl e | Inr a \<Rightarrow> f a)"

text \<open>
  A loop \<^verbatim>\<open>for a in xs: s = f(s, a)\<close> over a fallible body: the first exception ends it.
\<close>

fun for_each :: "('s \<Rightarrow> 'a \<Rightarrow> error + 's) \<Rightarrow> 'a list \<Rightarrow> 's \<Rightarrow> error + 's" where
  "for_each f [] s = Inr s"
| "for_each f (a # as) s = (case f s a of Inl e \<Rightarrow> Inl e | Inr s' \<Rightarrow> for_each f as s')"

text \<open>
  A single-qubit gate method called with a list of qubits (\<^verbatim>\<open>circuit.h([0,1])\<close>) appends one
  gate per qubit of the list, in order.
\<close>

definition h_list :: "circuit \<Rightarrow> int list \<Rightarrow> error + circuit" where
  "h_list c qs = for_each circuit_h qs c"

definition z_list :: "circuit \<Rightarrow> int list \<Rightarrow> error + circuit" where
  "z_list c qs = for_each circuit_z qs c"

fun is_gate :: "instruction \<Rightarrow> bool" where
  "is_gate (Barrier qs) = False"
| "is_gate (Measure q b) = False"
| "is_gate SaveStatevector = False"
| "is_gate i = True"

text \<open>
  \<^verbatim>\<open>to_gate\<close> converts a circuit of gates without classical bits; the new gate takes the
  circuit's name, which the notebook overwrites at once.
\<close>

definition to_gate :: "circuit \<Rightarrow> error + gate" where
  "to_gate c =
     (if num_clbits c \<noteq> 0 \<or> \<not> list_all is_gate (data c) then Inl QiskitError
      else Inr \<lparr>gate_name = ''circuit'', gate_num_qubits = num_qubits c,
                gate_definition = data c\<rparr>)"


definition circuit_copy :: "circuit \<Rightarrow> circuit" where
  "circuit_copy c = c"

definition save_statevector :: "circuit \<Rightarrow> circuit" where
  "save_statevector c = append_instruction c SaveStatevector"

text \<open>
  \<^verbatim>\<open>measure_all\<close> adds one new classical bit per qubit, a barrier over all qubits and a
  measurement of every qubit into its new bit.
\<close>

definition measure_all :: "circuit \<Rightarrow> circuit" where
  "measure_all c =
     c\<lparr>num_clbits := num_clbits c + num_qubits c,
       data := data c @ [Barrier [0..<num_qubits c]]
                 @ map (\<lambda>q. Measure q (num_clbits c + q)) [0..<num_qubits c]\<rparr>"

text \<open>Python's \<^verbatim>\<open>range(m)\<close>: empty when \<open>m \<le> 0\<close>.\<close>

definition py_range :: "int \<Rightarrow> int list" where
  "py_range m = map int [0..<nat m]"

section \<open>The notebook's two functions\<close>

text \<open>
  \<^verbatim>\<open>
  def initialize_s(circuit, qubits):
      for q in qubits:
          circuit.h(q)
      return circuit
  \<close>
\<close>

definition initialize_s :: "circuit \<Rightarrow> int list \<Rightarrow> error + circuit" where
  "initialize_s circuit qubits = for_each circuit_h qubits circuit"

text \<open>
  \<^verbatim>\<open>
  def diffuser(nqubits):
      qc = QuantumCircuit(nqubits)
      for qubit in range(nqubits): qc.h(qubit)
      for qubit in range(nqubits): qc.x(qubit)
      qc.h(nqubits-1)
      qc.mct(list(range(nqubits-1)), nqubits-1)
      qc.h(nqubits-1)
      for qubit in range(nqubits): qc.x(qubit)
      for qubit in range(nqubits): qc.h(qubit)
      U_s = qc.to_gate()
      U_s.name = "U$_s$"
      return U_s
  \<close>
  Each call that can raise is sequenced with \<open>and_then\<close>; \<open>nqubits - 1\<close> is Python's
  integer subtraction.
\<close>

definition diffuser_circuit :: "nat \<Rightarrow> error + circuit" where
  "diffuser_circuit nqubits =
     and_then (for_each circuit_h (py_range (int nqubits)) (QuantumCircuit nqubits)) (\<lambda>qc.
     and_then (for_each circuit_x (py_range (int nqubits)) qc) (\<lambda>qc.
     and_then (circuit_h qc (int nqubits - 1)) (\<lambda>qc.
     and_then (circuit_mct qc (py_range (int nqubits - 1)) (int nqubits - 1)) (\<lambda>qc.
     and_then (circuit_h qc (int nqubits - 1)) (\<lambda>qc.
     and_then (for_each circuit_x (py_range (int nqubits)) qc) (\<lambda>qc.
     for_each circuit_h (py_range (int nqubits)) qc))))))"

definition diffuser :: "nat \<Rightarrow> error + gate" where
  "diffuser nqubits =
     and_then (diffuser_circuit nqubits) (\<lambda>qc.
     and_then (to_gate qc) (\<lambda>U_s.
     Inr (U_s\<lparr>gate_name := ''U$_s$''\<rparr>)))"

section \<open>What the gates do to a statevector\<close>

text \<open>
  A statevector gives the complex amplitude of every computational basis state. Basis
  states are numbered as the SDK numbers them: qubit \<open>q\<close> is bit \<open>q\<close> of the index, so
  \<open>|11\<rangle>\<close> of a two-qubit register is index 3, and an \<open>n\<close>-qubit register uses the indices
  below \<open>2 ^ n\<close>. The gates are the standard ones: Hadamard, Pauli X and Z, controlled Z and
  the multi-controlled Toffoli (an X on the target when every control is 1).
\<close>

type_synonym statevector = "nat \<Rightarrow> complex"

definition h_gate :: "nat \<Rightarrow> statevector \<Rightarrow> statevector" where
  "h_gate q \<psi> =
     (\<lambda>i. (\<psi> (unset_bit q i) + (if bit i q then - \<psi> (set_bit q i) else \<psi> (set_bit q i)))
          / complex_of_real (sqrt 2))"

definition x_gate :: "nat \<Rightarrow> statevector \<Rightarrow> statevector" where
  "x_gate q \<psi> = (\<lambda>i. \<psi> (flip_bit q i))"

definition z_gate :: "nat \<Rightarrow> statevector \<Rightarrow> statevector" where
  "z_gate q \<psi> = (\<lambda>i. if bit i q then - \<psi> i else \<psi> i)"

definition cz_gate :: "nat \<Rightarrow> nat \<Rightarrow> statevector \<Rightarrow> statevector" where
  "cz_gate a b \<psi> = (\<lambda>i. if bit i a \<and> bit i b then - \<psi> i else \<psi> i)"

definition mct_gate :: "nat list \<Rightarrow> nat \<Rightarrow> statevector \<Rightarrow> statevector" where
  "mct_gate cs t \<psi> = (\<lambda>i. if list_all (bit i) cs then \<psi> (flip_bit t i) else \<psi> i)"

text \<open>
  An instruction acts on the qubits its arguments name. Inside a composite gate the
  definition's qubit \<open>k\<close> stands for the \<open>k\<close>-th qubit argument, hence the renaming \<open>m\<close>.
  A barrier and a snapshot leave the state alone; a measurement is read off the final
  amplitudes, so it does not change them either.
\<close>

fun apply_instruction :: "(nat \<Rightarrow> nat) \<Rightarrow> instruction \<Rightarrow> statevector \<Rightarrow> statevector" where
  "apply_instruction m (H q) \<psi> = h_gate (m q) \<psi>"
| "apply_instruction m (X q) \<psi> = x_gate (m q) \<psi>"
| "apply_instruction m (Z q) \<psi> = z_gate (m q) \<psi>"
| "apply_instruction m (CZ a b) \<psi> = cz_gate (m a) (m b) \<psi>"
| "apply_instruction m (MCT cs t) \<psi> = mct_gate (map m cs) (m t) \<psi>"
| "apply_instruction m (Gate nm body qargs) \<psi> =
     fold (apply_instruction (\<lambda>k. m (qargs ! k))) body \<psi>"
| "apply_instruction m (Barrier qs) \<psi> = \<psi>"
| "apply_instruction m (Measure q b) \<psi> = \<psi>"
| "apply_instruction m SaveStatevector \<psi> = \<psi>"

definition evolve :: "instruction list \<Rightarrow> statevector \<Rightarrow> statevector" where
  "evolve ops \<psi> = fold (apply_instruction (\<lambda>k. k)) ops \<psi>"

definition gate_unitary :: "gate \<Rightarrow> statevector \<Rightarrow> statevector" where
  "gate_unitary g = evolve (gate_definition g)"

section \<open>The simulator backend\<close>

text \<open>
  A simulation starts in \<open>|0\<dots>0\<rangle>\<close>. The statevector a run returns lists the amplitudes of
  the \<open>2 ^ n\<close> basis states of the register; the probability of a basis state is the squared
  modulus of its amplitude.
\<close>

definition zero_state :: statevector where
  "zero_state = (\<lambda>i. if i = 0 then 1 else 0)"

definition probabilities :: "complex list \<Rightarrow> real list" where
  "probabilities sv = map (\<lambda>a. (cmod a)\<^sup>2) sv"

fun is_composite :: "instruction \<Rightarrow> bool" where
  "is_composite (Gate nm body qargs) = True"
| "is_composite i = False"

text \<open>
  What the notebook's transcript shows of the simulator: a circuit that still contains
  a composite gate is refused (\<^verbatim>\<open>contains invalid instructions {"gates": {U$_s$}} for
  "statevector" method\<close>), and \<^verbatim>\<open>get_statevector\<close> raises when the run saved no statevector;
  both arrive as \<^verbatim>\<open>QiskitError\<close>. Otherwise the saved statevector is the state the
  instructions before the snapshot produce.
\<close>

definition aer_statevector :: "circuit \<Rightarrow> error + complex list" where
  "aer_statevector c =
     (if list_ex is_composite (data c) \<or> SaveStatevector \<notin> set (data c) then Inl QiskitError
      else Inr (map (evolve (takeWhile (\<lambda>i. i \<noteq> SaveStatevector) (data c)) zero_state)
                  [0..<2 ^ num_qubits c]))"

text \<open>
  The backend is external to the notebook, and sampled counts are random in general, so
  the notebook is modelled over any backend: what \<^verbatim>\<open>sim.run(assemble(c)).result()\<close> gives
  for \<^verbatim>\<open>get_statevector()\<close> and for \<^verbatim>\<open>get_counts()\<close>.
\<close>

record backend =
  run_statevector :: "circuit \<Rightarrow> error + complex list"
  run_counts :: "circuit \<Rightarrow> error + (string \<times> nat) list"

definition aer_simulator :: "(circuit \<Rightarrow> error + (string \<times> nat) list) \<Rightarrow> backend" where
  "aer_simulator sampler = \<lparr>run_statevector = aer_statevector, run_counts = sampler\<rparr>"

section \<open>The notebook's cells\<close>

text \<open>
  The kernel's variables after a cell, and \<open>sim_runs\<close>, the number of \<^verbatim>\<open>sim.run\<close> calls made
  so far. Cells 1, 3 and 4 import the SDK and define the two functions; the calls that
  only draw or plot (\<^verbatim>\<open>draw\<close>, \<^verbatim>\<open>array_to_latex\<close>, \<^verbatim>\<open>plot_histogram\<close>) change nothing.
\<close>

record session =
  grover_circuit :: circuit
  grover_circuit_sim :: "circuit option"
  statevec :: "complex list option"
  counts :: "(string \<times> nat) list option"
  sim_runs :: nat

text \<open>\<^verbatim>\<open>n = 2; grover_circuit = QuantumCircuit(n)\<close>, with \<open>n\<close> written \<open>notebook_n\<close>.\<close>

definition notebook_n :: nat where
  "notebook_n = 2"

definition cell_2 :: session where
  "cell_2 = \<lparr>grover_circuit = QuantumCircuit notebook_n, grover_circuit_sim = None, statevec = None,
              counts = None, sim_runs = 0\<rparr>"

text \<open>\<^verbatim>\<open>grover_circuit = initialize_s(grover_circuit, [0,1])\<close>\<close>

definition cell_5 :: "session \<Rightarrow> error + session" where
  "cell_5 s =
     and_then (initialize_s (grover_circuit s) [0, 1]) (\<lambda>c.
     Inr (s\<lparr>grover_circuit := c\<rparr>))"

text \<open>\<^verbatim>\<open>grover_circuit.cz(0,1) # Oracle\<close>\<close>

definition cell_6 :: "session \<Rightarrow> error + session" where
  "cell_6 s =
     and_then (circuit_cz (grover_circuit s) 0 1) (\<lambda>c.
     Inr (s\<lparr>grover_circuit := c\<rparr>))"

text \<open>
  \<^verbatim>\<open>
  #grover_circuit.append(diffuser(n), [0,1])
  grover_circuit.h([0,1])
  grover_circuit.z([0,1])
  grover_circuit.cz(0,1)
  grover_circuit.h([0,1])
  \<close>
\<close>

definition cell_7 :: "session \<Rightarrow> error + session" where
  "cell_7 s =
     and_then (h_list (grover_circuit s) [0, 1]) (\<lambda>c.
     and_then (z_list c [0, 1]) (\<lambda>c.
     and_then (circuit_cz c 0 1) (\<lambda>c.
     and_then (h_list c [0, 1]) (\<lambda>c.
     Inr (s\<lparr>grover_circuit := c\<rparr>)))))"


text \<open>
  \<^verbatim>\<open>
  grover_circuit_sim = grover_circuit.copy()
  grover_circuit_sim.save_statevector()
  qobj = assemble(grover_circuit_sim)
  result = sim.run(qobj).result()
  statevec = result.get_statevector()
  \<close>
\<close>

definition cell_8 :: "backend \<Rightarrow> session \<Rightarrow> error + session" where
  "cell_8 sim s =
     (let c = save_statevector (circuit_copy (grover_circuit s));
          s = s\<lparr>grover_circuit_sim := Some c, sim_runs := sim_runs s + 1\<rparr>
      in and_then (run_statevector sim c) (\<lambda>sv.
         Inr (s\<lparr>statevec := Some sv\<rparr>)))"

text \<open>
  \<^verbatim>\<open>
  grover_circuit.measure_all()
  qobj = assemble(grover_circuit)
  result = sim.run(qobj).result()
  counts = result.get_counts()
  \<close>
\<close>

definition cell_9 :: "backend \<Rightarrow> session \<Rightarrow> error + session" where
  "cell_9 sim s =
     (let c = measure_all (grover_circuit s);
          s = s\<lparr>grover_circuit := c, sim_runs := sim_runs s + 1\<rparr>
      in and_then (run_counts sim c) (\<lambda>k.
         Inr (s\<lparr>counts := Some k\<rparr>)))"

text \<open>Running the cells top to bottom; \<open>notebook_upto k\<close> stops after \<open>k\<close> of the five.\<close>

definition cells :: "backend \<Rightarrow> (session \<Rightarrow> error + session) list" where
  "cells sim = [cell_5, cell_6, cell_7, cell_8 sim, cell_9 sim]"

definition run_cells :: "(session \<Rightarrow> error + session) list \<Rightarrow> session \<Rightarrow> error + session" where
  "run_cells cs s = for_each (\<lambda>s c. c s) cs s"

definition notebook_upto :: "nat \<Rightarrow> backend \<Rightarrow> error + session" where
  "notebook_upto k sim = run_cells (take k (cells sim)) cell_2"

definition notebook :: "backend \<Rightarrow> error + session" where
  "notebook sim = run_cells (cells sim) cell_2"

subsection \<open>The recorded transcript\<close>





section \<open>The properties the description states\<close>

text \<open>
  The gate sequence the description gives for \<open>diffuser(nqubits)\<close>: H on every qubit, X on
  every qubit, H on the last qubit, the multi-controlled Toffoli with controls
  \<open>0..nqubits-2\<close> and the last qubit as target, H on the last qubit, X on every qubit, H on
  every qubit.
\<close>

definition diffuser_ops :: "nat \<Rightarrow> instruction list" where
  "diffuser_ops k =
     map H [0..<k] @ (map X [0..<k] @ [H (k - 1), MCT [0..<k - 1] (k - 1), H (k - 1)] @ map X [0..<k])
       @ map H [0..<k]"

text \<open>
  The uniform superposition \<open>|s\<rangle>\<close> of a \<open>k\<close>-qubit register, and the inversion about the mean
  \<open>2|s\<rangle>\<langle>s| - I\<close>.
\<close>

definition uniform_superposition :: "nat \<Rightarrow> statevector" where
  "uniform_superposition k = (\<lambda>i. if i < 2 ^ k then 1 / complex_of_real (sqrt 2) ^ k else 0)"

definition inversion_about_mean :: "nat \<Rightarrow> statevector \<Rightarrow> statevector" where
  "inversion_about_mean k \<psi> =
     (\<lambda>i. 2 * uniform_superposition k i * (\<Sum>j<2 ^ k. cnj (uniform_superposition k j) * \<psi> j) - \<psi> i)"

text \<open>
  Two operators on a \<open>k\<close>-qubit register agree up to a global phase: one unit complex
  factor relates their results on every statevector.
\<close>

definition equal_up_to_global_phase ::
  "nat \<Rightarrow> (statevector \<Rightarrow> statevector) \<Rightarrow> (statevector \<Rightarrow> statevector) \<Rightarrow> bool" where
  "equal_up_to_global_phase k U V \<longleftrightarrow>
     (\<exists>c. cmod c = 1 \<and> (\<forall>\<psi> i. i < 2 ^ k \<longrightarrow> U \<psi> i = c * V \<psi> i))"

text \<open>
  The gates cell 7 applies as the diffuser (H on qubits 0 and 1, Z on qubits 0 and 1,
  CZ(0,1), H on qubits 0 and 1), and the whole circuit of cells 5 to 7: Hadamards, the
  oracle CZ(0,1), the inline diffuser.
\<close>

definition inline_ops :: "instruction list" where
  "inline_ops = [H 0, H 1, Z 0, Z 1, CZ 0 1, H 0, H 1]"

definition grover_ops :: "instruction list" where
  "grover_ops = [H 0, H 1, CZ 0 1] @ inline_ops"

fun listed_gate :: "instruction \<Rightarrow> bool" where
  "listed_gate (H q) = True"
| "listed_gate (X q) = True"
| "listed_gate (Z q) = True"
| "listed_gate (CZ a b) = True"
| "listed_gate (MCT cs t) = True"
| "listed_gate i = False"

text \<open>
  An instruction list holds no gate outside the description's list: every instruction that
  is a gate (not a barrier, a measurement or a snapshot) is H, X, Z, CZ or the
  multi-controlled Toffoli. A session satisfies it when its circuit and its copy do.
\<close>

definition only_listed_gates :: "instruction list \<Rightarrow> bool" where
  "only_listed_gates ops \<longleftrightarrow> list_all (\<lambda>i. is_gate i \<longrightarrow> listed_gate i) ops"

definition session_listed :: "session \<Rightarrow> bool" where
  "session_listed s \<longleftrightarrow>
     only_listed_gates (data (grover_circuit s)) \<and>
     (case grover_circuit_sim s of None \<Rightarrow> True | Some c \<Rightarrow> only_listed_gates (data c))"

text \<open>
  A backend on which the whole notebook runs: the statevector of the gates, and 1024 shots
  that all read \<open>11\<close>.
\<close>

definition example_backend :: backend where
  "example_backend = aer_simulator (\<lambda>c. Inr [(''11'', 1024)])"

section \<open>Auxiliary facts about the gates\<close>

lemma csqrt2: "complex_of_real (sqrt 2) * complex_of_real (sqrt 2) = 2"
  by (metis of_real_mult of_real_numeral real_sqrt_mult_self abs_numeral)

lemma had_pair:
  fixes a b :: complex
  shows "((a + b) / complex_of_real (sqrt 2) + (a - b) / complex_of_real (sqrt 2)) / complex_of_real (sqrt 2) = a"
    and "((a + b) / complex_of_real (sqrt 2) - (a - b) / complex_of_real (sqrt 2)) / complex_of_real (sqrt 2) = b"
proof -
  have "((a + b) / complex_of_real (sqrt 2) + (a - b) / complex_of_real (sqrt 2)) / complex_of_real (sqrt 2)
      = ((a + b) + (a - b)) / (complex_of_real (sqrt 2) * complex_of_real (sqrt 2))"
    by (simp only: add_divide_distrib divide_divide_eq_left)
  then show "((a + b) / complex_of_real (sqrt 2) + (a - b) / complex_of_real (sqrt 2)) / complex_of_real (sqrt 2) = a"
    by (simp add: csqrt2)
  have "((a + b) / complex_of_real (sqrt 2) - (a - b) / complex_of_real (sqrt 2)) / complex_of_real (sqrt 2)
      = ((a + b) - (a - b)) / (complex_of_real (sqrt 2) * complex_of_real (sqrt 2))"
    by (simp only: diff_divide_distrib divide_divide_eq_left)
  then show "((a + b) / complex_of_real (sqrt 2) - (a - b) / complex_of_real (sqrt 2)) / complex_of_real (sqrt 2) = b"
    by (simp add: csqrt2)
qed

lemma set_bit_idem: "bit i q \<Longrightarrow> set_bit q i = (i::nat)"
  by (auto intro!: bit_eqI simp: bit_simps)

lemma unset_bit_idem: "\<not> bit i q \<Longrightarrow> unset_bit q i = (i::nat)"
  by (auto intro!: bit_eqI simp: bit_simps)

lemma flip_flip: "flip_bit q (flip_bit q i) = (i::nat)"
  by (auto intro!: bit_eqI simp: bit_simps)

lemma set_unset_nat:
  "unset_bit t (set_bit t i) = unset_bit t (i::nat)" "set_bit t (unset_bit t i) = set_bit t i"
  "unset_bit t (unset_bit t i) = unset_bit t i" "set_bit t (set_bit t i) = set_bit t i"
  by (auto intro!: bit_eqI simp: bit_simps)

lemma h_gate_invol: "h_gate q (h_gate q \<psi>) = \<psi>"
proof
  fix i :: nat
  show "h_gate q (h_gate q \<psi>) i = \<psi> i"
  proof (cases "bit i q")
    case True
    then show ?thesis
      by (simp add: h_gate_def bit_simps set_unset_nat set_bit_idem had_pair del: minus_add_distrib flip: diff_conv_add_uminus)
  next
    case False
    then show ?thesis
      by (simp add: h_gate_def bit_simps set_unset_nat unset_bit_idem had_pair del: minus_add_distrib flip: diff_conv_add_uminus)
  qed
qed

lemma h_gate_commute:
  assumes "p \<noteq> q"
  shows "h_gate p (h_gate q \<psi>) = h_gate q (h_gate p \<psi>)"
proof
  fix i :: nat
  have a: "unset_bit p (unset_bit q i) = unset_bit q (unset_bit p i)"
    and b: "set_bit p (unset_bit q i) = unset_bit q (set_bit p i)"
    and c: "unset_bit p (set_bit q i) = set_bit q (unset_bit p i)"
    and d: "set_bit p (set_bit q i) = set_bit q (set_bit p i)"
    using assms by (auto intro!: bit_eqI simp: bit_simps)
  have e: "bit (unset_bit p i) q = bit i q" "bit (set_bit p i) q = bit i q"
      "bit (unset_bit q i) p = bit i p" "bit (set_bit q i) p = bit i p"
    using assms by (auto simp: bit_simps)
  show "h_gate p (h_gate q \<psi>) i = h_gate q (h_gate p \<psi>) i"
    unfolding h_gate_def a b c d e
    by (cases "bit i p"; cases "bit i q") (simp_all add: add_divide_distrib diff_divide_distrib)
qed

lemma evolve_append: "evolve (xs @ ys) \<psi> = evolve ys (evolve xs \<psi>)"
  by (simp add: evolve_def)

lemma evolve_H_commute:
  "q \<notin> set qs \<Longrightarrow> h_gate q (evolve (map H qs) \<psi>) = evolve (map H qs) (h_gate q \<psi>)"
proof (induction qs arbitrary: \<psi>)
  case Nil
  then show ?case by (simp add: evolve_def)
next
  case (Cons a qs)
  then show ?case
    by (simp add: evolve_def h_gate_commute[of q a])
qed

lemma evolve_H_Suc: "evolve (map H [0..<Suc n]) \<psi> = h_gate n (evolve (map H [0..<n]) \<psi>)"
  by (simp add: evolve_def)

lemma evolve_H_invol: "evolve (map H [0..<n]) (evolve (map H [0..<n]) \<psi>) = \<psi>"
proof (induction n arbitrary: \<psi>)
  case 0
  then show ?case by (simp add: evolve_def)
next
  case (Suc n)
  have "evolve (map H [0..<Suc n]) (evolve (map H [0..<Suc n]) \<psi>)
      = h_gate n (evolve (map H [0..<n]) (h_gate n (evolve (map H [0..<n]) \<psi>)))"
    by (simp only: evolve_H_Suc)
  also have "\<dots> = h_gate n (h_gate n (evolve (map H [0..<n]) (evolve (map H [0..<n]) \<psi>)))"
    by (simp add: evolve_H_commute)
  finally show ?case by (simp add: h_gate_invol Suc.IH)
qed

lemma h_gate_linear:
  "h_gate q (\<lambda>i. a * \<psi> i + b * \<phi> i) = (\<lambda>i. a * h_gate q \<psi> i + b * h_gate q \<phi> i)"
  by (rule ext) (simp add: h_gate_def diff_divide_distrib add_divide_distrib algebra_simps)

lemma evolve_H_linear:
  "evolve (map H qs) (\<lambda>i. a * \<psi> i + b * \<phi> i)
   = (\<lambda>i. a * evolve (map H qs) \<psi> i + b * evolve (map H qs) \<phi> i)"
proof (induction qs arbitrary: \<psi> \<phi>)
  case Nil
  then show ?case by (simp add: evolve_def)
next
  case (Cons q qs)
  have "evolve (map H (q # qs)) (\<lambda>i. a * \<psi> i + b * \<phi> i)
        = evolve (map H qs) (h_gate q (\<lambda>i. a * \<psi> i + b * \<phi> i))"
    by (simp add: evolve_def)
  also have "\<dots> = evolve (map H qs) (\<lambda>i. a * h_gate q \<psi> i + b * h_gate q \<phi> i)"
    by (simp only: h_gate_linear)
  also have "\<dots> = (\<lambda>i. a * evolve (map H qs) (h_gate q \<psi>) i + b * evolve (map H qs) (h_gate q \<phi>) i)"
    by (rule Cons.IH)
  finally show ?case by (simp add: evolve_def)
qed

lemma evolve_X: "evolve (map X [0..<n]) \<psi> = (\<lambda>i. \<psi> (xor i (mask n)))"
proof (induction n arbitrary: \<psi>)
  case 0
  then show ?case by (simp add: evolve_def)
next
  case (Suc n)
  have *: "xor (flip_bit n i) (mask n) = xor i (mask (Suc n))" for i :: nat
    by (rule bit_eqI) (auto simp add: bit_simps)
  have "evolve (map X [0..<Suc n]) \<psi> = x_gate n (evolve (map X [0..<n]) \<psi>)"
    by (simp add: evolve_def)
  then show ?case
    by (simp add: Suc.IH x_gate_def *)
qed

lemma had_pair':
  fixes a b :: complex
  shows "((a - b) / complex_of_real (sqrt 2) - (a + b) / complex_of_real (sqrt 2)) / complex_of_real (sqrt 2) = - b"
    and "((a - b) / complex_of_real (sqrt 2) + (a + b) / complex_of_real (sqrt 2)) / complex_of_real (sqrt 2) = a"
  using had_pair[of a b] by (simp_all add: diff_divide_distrib[symmetric] add.commute)

lemma h_gate_at:
  "h_gate t \<phi> i = (if bit i t then (\<phi> (unset_bit t i) - \<phi> (set_bit t i)) / complex_of_real (sqrt 2)
                    else (\<phi> (unset_bit t i) + \<phi> (set_bit t i)) / complex_of_real (sqrt 2))"
  by (simp add: h_gate_def)

lemma h_mct_h:
  assumes "t \<notin> set cs"
  shows "h_gate t (mct_gate cs t (h_gate t \<psi>)) = (\<lambda>i. if list_all (bit i) cs \<and> bit i t then - \<psi> i else \<psi> i)"
proof
  fix i :: nat
  define u s where "u = unset_bit t i" and "s = set_bit t i"
  have c: "list_all (bit u) cs = list_all (bit i) cs" "list_all (bit s) cs = list_all (bit i) cs"
    using assms by (auto simp: list_all_iff bit_simps u_def s_def)
  have f: "flip_bit t u = s" "flip_bit t s = u"
    by (auto intro!: bit_eqI simp: bit_simps u_def s_def)
  have b: "\<not> bit u t" "bit s t" "unset_bit t u = u" "set_bit t u = s" "unset_bit t s = u" "set_bit t s = s"
    by (auto intro!: bit_eqI simp: bit_simps u_def s_def)
  have gu: "h_gate t \<psi> u = (\<psi> u + \<psi> s) / complex_of_real (sqrt 2)"
    and gs: "h_gate t \<psi> s = (\<psi> u - \<psi> s) / complex_of_real (sqrt 2)"
    by (simp_all add: h_gate_at b)
  have i: "bit i t \<Longrightarrow> s = i" "\<not> bit i t \<Longrightarrow> u = i"
    by (simp_all add: u_def s_def set_bit_idem unset_bit_idem)
  have "h_gate t (mct_gate cs t (h_gate t \<psi>)) i
      = (if bit i t then (mct_gate cs t (h_gate t \<psi>) u - mct_gate cs t (h_gate t \<psi>) s) / complex_of_real (sqrt 2)
         else (mct_gate cs t (h_gate t \<psi>) u + mct_gate cs t (h_gate t \<psi>) s) / complex_of_real (sqrt 2))"
    by (simp only: h_gate_at[of t _ i] u_def s_def)
  also have "\<dots> = (if bit i t then (if list_all (bit i) cs then - \<psi> s else \<psi> s) else \<psi> u)"
    by (simp add: mct_gate_def c f gu gs had_pair had_pair')
  also have "\<dots> = (if list_all (bit i) cs \<and> bit i t then - \<psi> i else \<psi> i)"
    using i by simp
  finally show "h_gate t (mct_gate cs t (h_gate t \<psi>)) i = (if list_all (bit i) cs \<and> bit i t then - \<psi> i else \<psi> i)" .
qed



lemma take_bit_zero_iff: "take_bit n (i::nat) = 0 \<longleftrightarrow> (\<forall>q<n. \<not> bit i q)"
  by (auto simp: bit_eq_iff bit_simps)

lemma evolve_H_sum:
  "take_bit n i = 0 \<Longrightarrow>
     evolve (map H [0..<n]) \<psi> i = (\<Sum>j<2 ^ n. \<psi> (i + j)) / complex_of_real (sqrt 2) ^ n"
proof (induction n arbitrary: i)
  case 0
  then show ?case by (simp add: evolve_def)
next
  case (Suc n)
  from Suc.prems have nb: "\<not> bit i n" and t0: "take_bit n i = 0"
    by (auto simp: take_bit_zero_iff)
  have s: "set_bit n i = i + 2 ^ n"
    using nb by (simp add: set_bit_eq)
  have t1: "take_bit n (i + 2 ^ n) = 0"
    using t0 by (simp add: take_bit_nat_def mod_simps)
  have split: "(\<Sum>j<2 ^ Suc n. \<psi> (i + j)) = (\<Sum>j<2 ^ n. \<psi> (i + j)) + (\<Sum>j<2 ^ n. \<psi> (i + 2 ^ n + j))"
  proof -
    have "(\<Sum>j = 0..<2 ^ n + 2 ^ n. \<psi> (i + j))
        = (\<Sum>j = 0..<2 ^ n. \<psi> (i + j)) + (\<Sum>j = 0 + 2 ^ n..<2 ^ n + 2 ^ n. \<psi> (i + j))"
      by (simp add: sum.atLeastLessThan_concat)
    also have "(\<Sum>j = 0 + 2 ^ n..<2 ^ n + 2 ^ n. \<psi> (i + j)) = (\<Sum>j = 0..<2 ^ n. \<psi> (i + (j + 2 ^ n)))"
      by (rule sum.shift_bounds_nat_ivl)
    finally have "(\<Sum>j<2 ^ n + 2 ^ n. \<psi> (i + j)) = (\<Sum>j<2 ^ n. \<psi> (i + j)) + (\<Sum>j<2 ^ n. \<psi> (i + (2 ^ n + j)))"
      by (simp add: lessThan_atLeast0 add.commute)
    then show ?thesis by (simp add: mult_2 add.assoc)
  qed
  have "evolve (map H [0..<Suc n]) \<psi> i =
        (evolve (map H [0..<n]) \<psi> i + evolve (map H [0..<n]) \<psi> (i + 2 ^ n)) / complex_of_real (sqrt 2)"
    by (simp only: evolve_H_Suc h_gate_at nb if_False unset_bit_idem[OF nb] s)
  also have "\<dots> = ((\<Sum>j<2 ^ n. \<psi> (i + j)) / complex_of_real (sqrt 2) ^ n
                   + (\<Sum>j<2 ^ n. \<psi> (i + 2 ^ n + j)) / complex_of_real (sqrt 2) ^ n) / complex_of_real (sqrt 2)"
    by (simp only: Suc.IH[OF t0] Suc.IH[OF t1])
  also have "\<dots> = (\<Sum>j<2 ^ Suc n. \<psi> (i + j)) / complex_of_real (sqrt 2) ^ Suc n"
    by (simp only: split add_divide_distrib[symmetric] divide_divide_eq_left
          power_Suc2[of "complex_of_real (sqrt 2)"])
  finally show ?case .
qed

lemma evolve_H_delta:
  assumes "\<And>i. take_bit n i \<noteq> 0 \<Longrightarrow> \<phi> i = 0"
  shows "evolve (map H [0..<n]) \<phi> i = \<phi> (push_bit n (drop_bit n i)) / complex_of_real (sqrt 2) ^ n"
  using assms
proof (induction n arbitrary: i)
  case 0
  then show ?case by (simp add: evolve_def)
next
  case (Suc n)
  have van: "\<phi> k = 0" if "take_bit n k \<noteq> 0" for k
  proof -
    from that have "take_bit (Suc n) k \<noteq> 0"
      by (auto simp: take_bit_zero_iff less_Suc_eq)
    then show ?thesis by (rule Suc.prems)
  qed
  have ih: "evolve (map H [0..<n]) \<phi> k = \<phi> (push_bit n (drop_bit n k)) / complex_of_real (sqrt 2) ^ n" for k
    by (rule Suc.IH) (rule van)
  have u: "push_bit n (drop_bit n (unset_bit n i)) = push_bit (Suc n) (drop_bit (Suc n) i)"
    by (rule bit_eqI)
      (auto simp add: bit_push_bit_iff bit_drop_bit_eq bit_unset_bit_iff simp del: push_bit_Suc drop_bit_Suc)
  have "bit (push_bit n (drop_bit n (set_bit n i))) n"
    by (simp add: bit_simps)
  then have "take_bit (Suc n) (push_bit n (drop_bit n (set_bit n i))) \<noteq> 0"
    by (auto simp: take_bit_zero_iff)
  then have s: "\<phi> (push_bit n (drop_bit n (set_bit n i))) = 0"
    by (rule Suc.prems)
  have "evolve (map H [0..<Suc n]) \<phi> i =
        (\<phi> (push_bit (Suc n) (drop_bit (Suc n) i)) / complex_of_real (sqrt 2) ^ n) / complex_of_real (sqrt 2)"
    unfolding evolve_H_Suc by (simp add: h_gate_at ih u s del: push_bit_Suc drop_bit_Suc)
  then show ?case
    by (simp only: divide_divide_eq_left power_Suc2[of "complex_of_real (sqrt 2)"])
qed

lemma evolve_phase_flip:
  assumes "0 < n"
  shows "evolve (map X [0..<n] @ [H (n - 1), MCT [0..<n - 1] (n - 1), H (n - 1)] @ map X [0..<n]) \<phi>
         = (\<lambda>i. if take_bit n i = 0 then - \<phi> i else \<phi> i)"
proof
  fix i :: nat
  have t: "n - 1 \<notin> set [0..<n - 1]" by simp
  have mid: "evolve [H (n - 1), MCT [0..<n - 1] (n - 1), H (n - 1)] \<chi>
           = (\<lambda>i. if list_all (bit i) [0..<n - 1] \<and> bit i (n - 1) then - \<chi> i else \<chi> i)" for \<chi>
    using h_mct_h[OF t, of \<chi>] by (simp add: evolve_def)
  have cond: "(list_all (bit (xor i (mask n))) [0..<n - 1] \<and> bit (xor i (mask n)) (n - 1)) \<longleftrightarrow> take_bit n i = 0"
  proof -
    have "(list_all (bit (xor i (mask n))) [0..<n - 1] \<and> bit (xor i (mask n)) (n - 1))
          \<longleftrightarrow> (\<forall>q<n. bit (xor i (mask n)) q)"
      using assms by (auto simp: list_all_iff less_Suc_eq dest!: less_imp_Suc_add)
    also have "\<dots> \<longleftrightarrow> (\<forall>q<n. \<not> bit i q)"
      by (auto simp: bit_simps)
    finally show ?thesis by (simp add: take_bit_zero_iff)
  qed
  have xx: "xor (xor i (mask n)) (mask n) = i"
    by (simp add: xor.assoc)
  show "evolve (map X [0..<n] @ [H (n - 1), MCT [0..<n - 1] (n - 1), H (n - 1)] @ map X [0..<n]) \<phi> i
         = (if take_bit n i = 0 then - \<phi> i else \<phi> i)"
    unfolding evolve_append evolve_X mid cond xx by simp
qed

lemma sqrt2_pow: "complex_of_real (sqrt 2) ^ n * complex_of_real (sqrt 2) ^ n = 2 ^ n"
  by (simp add: power_mult_distrib[symmetric] csqrt2)

text \<open>
  Hadamards on every qubit around an operator that rescales the state and adds a multiple
  of its \<open>|0\<dots>0\<rangle>\<close> component: the result rescales the state and adds the same multiple of
  the mean over the register's block of indices.
\<close>

lemma evolve_H_conjugate:
  assumes mid: "\<And>\<phi>. evolve mid \<phi> = (\<lambda>i. a * \<phi> i + b * (if take_bit n i = 0 then \<phi> i else 0))"
  shows "evolve (map H [0..<n] @ mid @ map H [0..<n]) \<psi> i
         = a * \<psi> i + b * ((\<Sum>j<2 ^ n. \<psi> (push_bit n (drop_bit n i) + j)) / 2 ^ n)"
proof -
  define \<phi> where "\<phi> = evolve (map H [0..<n]) \<psi>"
  define \<phi>0 where "\<phi>0 = (\<lambda>i. if take_bit n i = 0 then \<phi> i else 0)"
  have tb: "take_bit n (push_bit n (drop_bit n i)) = 0"
    by (simp add: take_bit_zero_iff bit_simps)
  have "evolve (map H [0..<n] @ mid @ map H [0..<n]) \<psi> = evolve (map H [0..<n]) (evolve mid \<phi>)"
    by (simp only: evolve_append \<phi>_def)
  also have "evolve mid \<phi> = (\<lambda>i. a * \<phi> i + b * \<phi>0 i)"
    by (simp only: mid \<phi>0_def)
  also have "evolve (map H [0..<n]) (\<lambda>i. a * \<phi> i + b * \<phi>0 i)
           = (\<lambda>i. a * evolve (map H [0..<n]) \<phi> i + b * evolve (map H [0..<n]) \<phi>0 i)"
    by (rule evolve_H_linear)
  finally have "evolve (map H [0..<n] @ mid @ map H [0..<n]) \<psi> i
      = a * evolve (map H [0..<n]) \<phi> i + b * evolve (map H [0..<n]) \<phi>0 i"
    by simp
  also have "evolve (map H [0..<n]) \<phi> i = \<psi> i"
    by (simp add: \<phi>_def evolve_H_invol)
  also have "evolve (map H [0..<n]) \<phi>0 i = \<phi>0 (push_bit n (drop_bit n i)) / complex_of_real (sqrt 2) ^ n"
    by (rule evolve_H_delta) (simp add: \<phi>0_def)
  also have "\<phi>0 (push_bit n (drop_bit n i)) = \<phi> (push_bit n (drop_bit n i))"
    by (simp add: \<phi>0_def tb)
  also have "\<dots> = (\<Sum>j<2 ^ n. \<psi> (push_bit n (drop_bit n i) + j)) / complex_of_real (sqrt 2) ^ n"
    unfolding \<phi>_def by (rule evolve_H_sum[OF tb])
  finally show ?thesis
    by (simp only: divide_divide_eq_left sqrt2_pow)
qed

lemma evolve_diffuser_ops:
  assumes "0 < n"
  shows "evolve (diffuser_ops n) \<psi> i
         = \<psi> i - 2 * (\<Sum>j<2 ^ n. \<psi> (push_bit n (drop_bit n i) + j)) / 2 ^ n"
proof -
  have "evolve (map X [0..<n] @ [H (n - 1), MCT [0..<n - 1] (n - 1), H (n - 1)] @ map X [0..<n]) \<phi>
        = (\<lambda>i. 1 * \<phi> i + (- 2) * (if take_bit n i = 0 then \<phi> i else 0))" for \<phi>
    unfolding evolve_phase_flip[OF assms] by (auto simp add: fun_eq_iff)
  then have "evolve (map H [0..<n] @ (map X [0..<n] @ [H (n - 1), MCT [0..<n - 1] (n - 1), H (n - 1)]
                 @ map X [0..<n]) @ map H [0..<n]) \<psi> i
             = 1 * \<psi> i + (- 2) * ((\<Sum>j<2 ^ n. \<psi> (push_bit n (drop_bit n i) + j)) / 2 ^ n)"
    by (rule evolve_H_conjugate)
  then show ?thesis
    unfolding diffuser_ops_def by simp
qed

section \<open>Auxiliary facts about the circuit methods\<close>

lemma qubit_index_nat: "k < num_qubits c \<Longrightarrow> qubit_index c (int k) = Inr k"
  by (simp add: qubit_index_def)

lemma num_qubits_append [simp]: "num_qubits (append_instruction c i) = num_qubits c"
  by (simp add: append_instruction_def)

lemma qubit_indices_nat: "\<forall>k\<in>set ks. k < num_qubits c \<Longrightarrow> qubit_indices c (map int ks) = Inr ks"
  by (induction ks) (simp_all add: qubit_index_nat)

lemma for_each_h_nat:
  "\<forall>k\<in>set ks. k < num_qubits c \<Longrightarrow>
     for_each circuit_h (map int ks) c = Inr (c\<lparr>data := data c @ map H ks\<rparr>)"
proof (induction ks arbitrary: c)
  case Nil
  then show ?case by simp
next
  case (Cons k ks)
  then show ?case
    by (simp add: circuit_h_def qubit_index_nat append_instruction_def)
qed

lemma for_each_x_nat:
  "\<forall>k\<in>set ks. k < num_qubits c \<Longrightarrow>
     for_each circuit_x (map int ks) c = Inr (c\<lparr>data := data c @ map X ks\<rparr>)"
proof (induction ks arbitrary: c)
  case Nil
  then show ?case by simp
next
  case (Cons k ks)
  then show ?case
    by (simp add: circuit_x_def qubit_index_nat append_instruction_def)
qed

lemma py_range_int: "py_range (int k) = map int [0..<k]"
  by (simp add: py_range_def)

lemma py_range_pred: "0 < k \<Longrightarrow> py_range (int k - 1) = map int [0..<k - 1]"
  by (simp add: py_range_def nat_diff_distrib')

lemma qubit_index_last:
  "0 < k \<Longrightarrow> num_qubits c = k \<Longrightarrow> qubit_index c (int k - 1) = Inr (k - 1)"
  by (auto simp add: qubit_index_def Let_def nat_diff_distrib')

lemma circuit_h_last:
  "0 < k \<Longrightarrow> num_qubits c = k \<Longrightarrow>
     circuit_h c (int k - 1) = Inr (c\<lparr>data := data c @ [H (k - 1)]\<rparr>)"
  by (simp add: circuit_h_def qubit_index_last append_instruction_def)

lemma circuit_mct_last:
  assumes "2 \<le> k" "num_qubits c = k"
  shows "circuit_mct c (py_range (int k - 1)) (int k - 1)
         = Inr (c\<lparr>data := data c @ [MCT [0..<k - 1] (k - 1)]\<rparr>)"
proof -
  have k: "0 < k" "[0..<k - 1] \<noteq> []" using assms by auto
  have "qubit_indices c (map int [0..<k - 1]) = Inr [0..<k - 1]"
    by (rule qubit_indices_nat) (use assms in auto)
  then show ?thesis
    using k by (simp add: circuit_mct_def py_range_pred qubit_index_last assms(2) append_instruction_def)
qed

lemma diffuser_circuit_ok:
  assumes "2 \<le> k"
  shows "diffuser_circuit k = Inr \<lparr>num_qubits = k, num_clbits = 0, data = diffuser_ops k\<rparr>"
proof -
  have k: "0 < k" using assms by auto
  show ?thesis
    unfolding diffuser_circuit_def py_range_int
    by (simp add: for_each_h_nat for_each_x_nat and_then_def QuantumCircuit_def
        circuit_h_last[OF k] circuit_mct_last[OF assms] diffuser_ops_def)
qed

lemma list_all_listed_diffuser_ops: "list_all listed_gate (diffuser_ops k)"
  by (simp add: diffuser_ops_def list_all_iff) auto

lemma listed_is_gate: "listed_gate i \<Longrightarrow> is_gate i"
  by (cases i) simp_all

lemma diffuser_ok:
  assumes "2 \<le> k"
  shows "diffuser k = Inr \<lparr>gate_name = ''U$_s$'', gate_num_qubits = k, gate_definition = diffuser_ops k\<rparr>"
proof -
  have "list_all is_gate (diffuser_ops k)"
    using list_all_listed_diffuser_ops[of k] by (auto simp: list_all_iff listed_is_gate)
  then show ?thesis
    by (simp add: diffuser_def diffuser_circuit_ok[OF assms] and_then_def to_gate_def)
qed

lemma inversion_about_mean_eq:
  assumes "i < 2 ^ k"
  shows "inversion_about_mean k \<psi> i = 2 * (\<Sum>j<2 ^ k. \<psi> j) / 2 ^ k - \<psi> i"
proof -
  have "(\<Sum>j<2 ^ k. cnj (uniform_superposition k j) * \<psi> j) = (\<Sum>j<2 ^ k. \<psi> j / complex_of_real (sqrt 2) ^ k)"
    by (rule sum.cong) (simp_all add: uniform_superposition_def)
  also have "\<dots> = (\<Sum>j<2 ^ k. \<psi> j) / complex_of_real (sqrt 2) ^ k"
    by (simp add: sum_divide_distrib)
  finally have "inversion_about_mean k \<psi> i
      = 2 * (1 / complex_of_real (sqrt 2) ^ k) * ((\<Sum>j<2 ^ k. \<psi> j) / complex_of_real (sqrt 2) ^ k) - \<psi> i"
    using assms by (simp add: inversion_about_mean_def uniform_superposition_def)
  also have "2 * (1 / complex_of_real (sqrt 2) ^ k) * ((\<Sum>j<2 ^ k. \<psi> j) / complex_of_real (sqrt 2) ^ k)
      = 2 * (\<Sum>j<2 ^ k. \<psi> j) / (complex_of_real (sqrt 2) ^ k * complex_of_real (sqrt 2) ^ k)"
    by simp
  finally show ?thesis by (simp only: sqrt2_pow)
qed

lemma block_base_small: "i < 2 ^ k \<Longrightarrow> push_bit k (drop_bit k i) = (0::nat)"
  by (simp add: drop_bit_eq_div)

lemma diffuser_ops_inversion:
  assumes "0 < k" "i < 2 ^ k"
  shows "evolve (diffuser_ops k) \<psi> i = - inversion_about_mean k \<psi> i"
  by (simp add: evolve_diffuser_ops[OF assms(1)] block_base_small[OF assms(2)] inversion_about_mean_eq[OF assms(2)])

section \<open>Auxiliary facts about the two diffusers\<close>

lemma block_base_block:
  "j < 2 ^ k \<Longrightarrow> push_bit k (drop_bit k (push_bit k (drop_bit k i) + j)) = push_bit k (drop_bit k (i::nat))"
  by (simp add: push_bit_eq_mult drop_bit_eq_div)

lemma diffuser_ops_invol:
  assumes "0 < k"
  shows "evolve (diffuser_ops k) (evolve (diffuser_ops k) \<psi>) = \<psi>"
proof
  fix i :: nat
  define B where "B = push_bit k (drop_bit k i)"
  define S where "S = (\<Sum>j<2 ^ k. \<psi> (B + j))"
  have D: "evolve (diffuser_ops k) \<chi> m = \<chi> m - 2 * (\<Sum>j<2 ^ k. \<chi> (push_bit k (drop_bit k m) + j)) / 2 ^ k" for \<chi> m
    by (rule evolve_diffuser_ops[OF assms])
  have "(\<Sum>j<2 ^ k. evolve (diffuser_ops k) \<psi> (B + j)) = (\<Sum>j<2 ^ k. \<psi> (B + j) - 2 * S / 2 ^ k)"
    by (rule sum.cong) (simp_all add: D B_def S_def block_base_block)
  also have "\<dots> = S - 2 ^ k * (2 * S / 2 ^ k)"
    by (simp add: sum_subtractf S_def)
  also have "\<dots> = - S"
    by simp
  finally have "evolve (diffuser_ops k) (evolve (diffuser_ops k) \<psi>) i
      = (\<psi> i - 2 * S / 2 ^ k) - 2 * (- S) / 2 ^ k"
    by (simp add: D[of "evolve (diffuser_ops k) \<psi>" i] D[of \<psi> i] B_def[symmetric] S_def[symmetric])
  then show "evolve (diffuser_ops k) (evolve (diffuser_ops k) \<psi>) i = \<psi> i"
    by simp
qed

lemma upt_0_2: "[0..<2] = [0, Suc 0]"
  by (simp add: numeral_2_eq_2)

lemma take_bit_2_zero: "take_bit 2 (i::nat) = 0 \<longleftrightarrow> \<not> bit i 0 \<and> \<not> bit i (Suc 0)"
  by (auto simp add: take_bit_zero_iff numeral_2_eq_2 less_Suc_eq)

lemma evolve_inline_ops:
  "evolve inline_ops \<psi> i = 2 * (\<Sum>j<2 ^ 2. \<psi> (push_bit 2 (drop_bit 2 i) + j)) / 2 ^ 2 - \<psi> i"
proof -
  have l: "inline_ops = map H [0..<2] @ [Z 0, Z 1, CZ 0 1] @ map H [0..<2]"
    by (simp add: inline_ops_def upt_0_2)
  have "evolve [Z 0, Z 1, CZ 0 1] \<phi> = (\<lambda>i. (- 1) * \<phi> i + 2 * (if take_bit 2 i = 0 then \<phi> i else 0))" for \<phi>
    by (auto simp add: evolve_def z_gate_def cz_gate_def fun_eq_iff take_bit_2_zero)
  then have "evolve (map H [0..<2] @ [Z 0, Z 1, CZ 0 1] @ map H [0..<2]) \<psi> i
             = (- 1) * \<psi> i + 2 * ((\<Sum>j<2 ^ 2. \<psi> (push_bit 2 (drop_bit 2 i) + j)) / 2 ^ 2)"
    by (rule evolve_H_conjugate)
  then show ?thesis
    unfolding l by simp
qed

lemma inline_ops_diffuser_ops: "evolve inline_ops \<psi> i = - evolve (diffuser_ops 2) \<psi> i"
  by (simp add: evolve_inline_ops evolve_diffuser_ops)

section \<open>Auxiliary facts about the notebook run\<close>

lemma cell_5_appends:
  "num_qubits (grover_circuit s) = 2 \<Longrightarrow>
   cell_5 s = Inr (s\<lparr>grover_circuit := (grover_circuit s)\<lparr>data := data (grover_circuit s) @ [H 0, H 1]\<rparr>\<rparr>)"
  by (simp add: cell_5_def initialize_s_def and_then_def circuit_h_def qubit_index_def append_instruction_def)

lemma cell_6_appends:
  "num_qubits (grover_circuit s) = 2 \<Longrightarrow>
   cell_6 s = Inr (s\<lparr>grover_circuit := (grover_circuit s)\<lparr>data := data (grover_circuit s) @ [CZ 0 1]\<rparr>\<rparr>)"
  by (simp add: cell_6_def and_then_def circuit_cz_def qubit_index_def append_instruction_def)

lemma cell_7_appends:
  "num_qubits (grover_circuit s) = 2 \<Longrightarrow>
   cell_7 s = Inr (s\<lparr>grover_circuit := (grover_circuit s)\<lparr>data := data (grover_circuit s) @ inline_ops\<rparr>\<rparr>)"
  by (simp add: cell_7_def h_list_def z_list_def and_then_def circuit_h_def circuit_z_def circuit_cz_def
      qubit_index_def append_instruction_def inline_ops_def)

lemma notebook_upto_3:
  "notebook_upto 3 sim =
     Inr \<lparr>grover_circuit = \<lparr>num_qubits = 2, num_clbits = 0, data = grover_ops\<rparr>,
          grover_circuit_sim = None, statevec = None, counts = None, sim_runs = 0\<rparr>"
  by (simp add: notebook_upto_def cells_def run_cells_def cell_2_def notebook_n_def QuantumCircuit_def
      cell_5_appends cell_6_appends cell_7_appends grover_ops_def)

lemma sum_4: "(\<Sum>j<(4::nat). f j) = f 0 + f 1 + f 2 + (f 3 :: complex)"
  by (simp add: numeral_eq_Suc)

lemma bits_3: "bit (3::nat) 0" "bit (3::nat) (Suc 0)" "\<not> bit (2::nat) 0" "bit (2::nat) (Suc 0)"
   "bit (Suc 0) 0" "\<not> bit (Suc 0) (Suc 0)" "\<not> bit (0::nat) 0" "\<not> bit (0::nat) (Suc 0)"
  by (simp_all add: bit_iff_odd)

lemma hadamard_zero_state:
  "evolve (map H [0..<2]) zero_state i = (if i < 4 then 1 / 2 else 0)"
proof -
  have v: "zero_state m = 0" if "take_bit 2 m \<noteq> 0" for m
    using that by (cases "m = 0") (simp_all add: zero_state_def)
  have b: "push_bit 2 (drop_bit 2 i) = 0 \<longleftrightarrow> i < 4"
    by (simp add: push_bit_eq_mult drop_bit_eq_div) presburger
  have "evolve (map H [0..<2]) zero_state i = zero_state (push_bit 2 (drop_bit 2 i)) / complex_of_real (sqrt 2) ^ 2"
    by (rule evolve_H_delta) (rule v)
  also have "complex_of_real (sqrt 2) ^ 2 = 2"
    by (simp add: power2_eq_square csqrt2)
  also have "zero_state (push_bit 2 (drop_bit 2 i)) = (if i < 4 then 1 else 0)"
    unfolding zero_state_def b ..
  also have "(if i < 4 then 1 else 0) / 2 = (if i < 4 then 1 / 2 else (0::complex))"
    by simp
  finally show ?thesis .
qed

lemma grover_amplitudes:
  "evolve grover_ops zero_state 0 = 0" "evolve grover_ops zero_state (Suc 0) = 0"
  "evolve grover_ops zero_state 2 = 0" "evolve grover_ops zero_state 3 = 1"
proof -
  define \<psi> where "\<psi> = evolve [CZ 0 1] (evolve (map H [0..<2]) zero_state)"
  have g: "grover_ops = map H [0..<2] @ [CZ 0 1] @ inline_ops"
    by (simp add: grover_ops_def upt_0_2)
  have e: "evolve grover_ops zero_state = evolve inline_ops \<psi>"
    unfolding g evolve_append \<psi>_def ..
  have cz: "evolve [CZ 0 1] \<chi> = cz_gate 0 1 \<chi>" for \<chi>
    by (simp add: evolve_def)
  have p: "\<psi> 0 = 1 / 2" "\<psi> (Suc 0) = 1 / 2" "\<psi> 2 = 1 / 2" "\<psi> 3 = - (1 / 2)"
    unfolding \<psi>_def cz cz_gate_def hadamard_zero_state by (simp_all add: bits_3)
  have b: "push_bit 2 (drop_bit 2 i) = (0::nat)" if "i < 4" for i
    using that by (simp add: push_bit_eq_mult drop_bit_eq_div)
  show "evolve grover_ops zero_state 0 = 0" "evolve grover_ops zero_state (Suc 0) = 0"
    "evolve grover_ops zero_state 2 = 0" "evolve grover_ops zero_state 3 = 1"
    unfolding e evolve_inline_ops by (simp_all add: b sum_4 p)
qed

lemma run_cells_snoc: "run_cells (cs @ [c]) s = and_then (run_cells cs s) c"
  unfolding run_cells_def
  by (induction cs arbitrary: s) (simp_all add: and_then_def split: sum.splits)

lemma notebook_upto_Suc:
  "k < length (cells sim) \<Longrightarrow> notebook_upto (Suc k) sim = and_then (notebook_upto k sim) (cells sim ! k)"
  by (simp add: notebook_upto_def take_Suc_conv_app_nth run_cells_snoc)

lemma upt_0_4: "[0..<4] = [0, 1, 2, 3]"
  by (simp add: numeral_eq_Suc)

lemma aer_statevector_grover:
  "aer_statevector \<lparr>num_qubits = 2, num_clbits = 0, data = grover_ops @ [SaveStatevector]\<rparr> = Inr [0, 0, 0, 1]"
proof -
  have "\<not> list_ex is_composite (grover_ops @ [SaveStatevector])"
    by (simp add: grover_ops_def inline_ops_def)
  moreover have "takeWhile (\<lambda>i. i \<noteq> SaveStatevector) (grover_ops @ [SaveStatevector]) = grover_ops"
    by (simp add: grover_ops_def inline_ops_def)
  ultimately show ?thesis
    by (simp add: aer_statevector_def upt_0_4 grover_amplitudes)
qed

lemma notebook_upto_4:
  "notebook_upto 4 (aer_simulator sampler) =
     Inr \<lparr>grover_circuit = \<lparr>num_qubits = 2, num_clbits = 0, data = grover_ops\<rparr>,
          grover_circuit_sim = Some \<lparr>num_qubits = 2, num_clbits = 0, data = grover_ops @ [SaveStatevector]\<rparr>,
          statevec = Some [0, 0, 0, 1], counts = None, sim_runs = 1\<rparr>"
proof -
  have "notebook_upto 4 (aer_simulator sampler)
        = and_then (notebook_upto 3 (aer_simulator sampler)) (cell_8 (aer_simulator sampler))"
    using notebook_upto_Suc[of 3 "aer_simulator sampler"] by (simp add: cells_def eval_nat_numeral)
  then show ?thesis
    by (simp add: notebook_upto_3 and_then_def cell_8_def Let_def circuit_copy_def save_statevector_def
        append_instruction_def aer_simulator_def aer_statevector_grover)
qed

lemma qubit_index_data [simp]: "qubit_index (c\<lparr>data := d\<rparr>) q = qubit_index c q"
  by (simp add: qubit_index_def)

lemma qubit_indices_data [simp]: "qubit_indices (c\<lparr>data := d\<rparr>) qs = qubit_indices c qs"
  by (induction qs) (simp_all split: sum.splits)

lemma for_each_h_resolved:
  "qubit_indices c qubits = Inr ks \<Longrightarrow>
     for_each circuit_h qubits c = Inr (c\<lparr>data := data c @ map H ks\<rparr>) \<and> length ks = length qubits"
proof (induction qubits arbitrary: c ks)
  case Nil
  then show ?case by simp
next
  case (Cons q qubits)
  from Cons.prems obtain k ks' where k: "qubit_index c q = Inr k"
    and ks': "qubit_indices c qubits = Inr ks'" and ks: "ks = k # ks'"
    by (auto split: sum.splits)
  have "qubit_indices (c\<lparr>data := data c @ [H k]\<rparr>) qubits = Inr ks'"
    using ks' by simp
  from Cons.IH[OF this] show ?case
    by (simp add: circuit_h_def k ks append_instruction_def)
qed

lemma for_each_h_unresolved:
  "qubit_indices c qubits = Inl e \<Longrightarrow> for_each circuit_h qubits c = Inl e"
proof (induction qubits arbitrary: c)
  case Nil
  then show ?case by simp
next
  case (Cons q qubits)
  show ?case
  proof (cases "qubit_index c q")
    case (Inl e')
    with Cons.prems show ?thesis by (simp add: circuit_h_def)
  next
    case (Inr k)
    with Cons.prems have "qubit_indices (c\<lparr>data := data c @ [H k]\<rparr>) qubits = Inl e"
      by (auto split: sum.splits)
    from Cons.IH[OF this] Inr show ?thesis
      by (simp add: circuit_h_def append_instruction_def)
  qed
qed

section \<open>Auxiliary facts: which gates the code appends\<close>

lemma only_listed_append:
  "only_listed_gates (xs @ ys) \<longleftrightarrow> only_listed_gates xs \<and> only_listed_gates ys"
  by (simp add: only_listed_gates_def)

lemma circuit_methods_listed:
  "circuit_h c q = Inr c' \<Longrightarrow> only_listed_gates (data c) \<Longrightarrow> only_listed_gates (data c')"
  "circuit_x c q = Inr c' \<Longrightarrow> only_listed_gates (data c) \<Longrightarrow> only_listed_gates (data c')"
  "circuit_z c q = Inr c' \<Longrightarrow> only_listed_gates (data c) \<Longrightarrow> only_listed_gates (data c')"
  "circuit_cz c a b = Inr c' \<Longrightarrow> only_listed_gates (data c) \<Longrightarrow> only_listed_gates (data c')"
  "circuit_mct c qs t = Inr c' \<Longrightarrow> only_listed_gates (data c) \<Longrightarrow> only_listed_gates (data c')"
  by (auto simp add: circuit_h_def circuit_x_def circuit_z_def circuit_cz_def circuit_mct_def
      append_instruction_def only_listed_gates_def split: sum.splits if_splits)

lemma for_each_invariant:
  assumes "\<And>s a s'. P s \<Longrightarrow> f s a = Inr s' \<Longrightarrow> P s'"
  shows "P s \<Longrightarrow> for_each f as s = Inr s' \<Longrightarrow> P s'"
proof (induction as arbitrary: s)
  case Nil
  then show ?case by simp
next
  case (Cons a as)
  then show ?case
    by (auto split: sum.splits intro: assms)
qed

lemma for_each_listed:
  "for_each circuit_h qs c = Inr c' \<Longrightarrow> only_listed_gates (data c) \<Longrightarrow> only_listed_gates (data c')"
  "for_each circuit_x qs c = Inr c' \<Longrightarrow> only_listed_gates (data c) \<Longrightarrow> only_listed_gates (data c')"
  "for_each circuit_z qs c = Inr c' \<Longrightarrow> only_listed_gates (data c) \<Longrightarrow> only_listed_gates (data c')"
  using for_each_invariant[of "\<lambda>c. only_listed_gates (data c)" circuit_h c qs c']
    for_each_invariant[of "\<lambda>c. only_listed_gates (data c)" circuit_x c qs c']
    for_each_invariant[of "\<lambda>c. only_listed_gates (data c)" circuit_z c qs c']
  by (blast intro: circuit_methods_listed)+

lemma diffuser_circuit_listed:
  assumes "diffuser_circuit nqubits = Inr qc"
  shows "only_listed_gates (data qc)"
proof -
  have 0: "only_listed_gates (data (QuantumCircuit nqubits))"
    by (simp add: QuantumCircuit_def only_listed_gates_def)
  from assms show ?thesis
    unfolding diffuser_circuit_def and_then_def
    by (auto split: sum.splits dest!: for_each_listed circuit_methods_listed simp: 0)
qed

lemma to_gate_all_gates: "to_gate qc = Inr g \<Longrightarrow> list_all is_gate (gate_definition g) \<and> gate_definition g = data qc"
  by (auto simp add: to_gate_def split: if_splits)

lemma diffuser_listed:
  assumes "diffuser nqubits = Inr U_s"
  shows "list_all listed_gate (gate_definition U_s)"
proof -
  from assms obtain qc g where qc: "diffuser_circuit nqubits = Inr qc" and g: "to_gate qc = Inr g"
    and U: "gate_definition U_s = gate_definition g"
    by (auto simp add: diffuser_def and_then_def split: sum.splits)
  from to_gate_all_gates[OF g] diffuser_circuit_listed[OF qc] U show ?thesis
    by (auto simp add: only_listed_gates_def list_all_iff)
qed

lemma cells_listed:
  assumes "c \<in> set (cells sim)" "session_listed s" "c s = Inr s'"
  shows "session_listed s'"
proof -
  from assms(1) consider "c = cell_5" | "c = cell_6" | "c = cell_7" | "c = cell_8 sim" | "c = cell_9 sim"
    by (auto simp add: cells_def)
  then show ?thesis
  proof cases
    case 1
    with assms(2,3) show ?thesis
      by (auto simp add: cell_5_def initialize_s_def and_then_def session_listed_def
          split: sum.splits dest: for_each_listed circuit_methods_listed)
  next
    case 2
    with assms(2,3) show ?thesis
      by (auto simp add: cell_6_def and_then_def session_listed_def
          split: sum.splits dest: circuit_methods_listed)
  next
    case 3
    with assms(2,3) show ?thesis
      by (auto simp add: cell_7_def h_list_def z_list_def and_then_def session_listed_def
          split: sum.splits dest!: for_each_listed circuit_methods_listed)
  next
    case 4
    with assms(2,3) show ?thesis
      by (auto simp add: cell_8_def Let_def and_then_def session_listed_def circuit_copy_def
          save_statevector_def append_instruction_def only_listed_gates_def split: sum.splits)
  next
    case 5
    with assms(2,3) show ?thesis
      by (auto simp add: cell_9_def Let_def and_then_def session_listed_def measure_all_def
          only_listed_gates_def list_all_iff split: sum.splits option.splits)
  qed
qed

lemma run_cells_listed:
  "set cs \<subseteq> set (cells sim) \<Longrightarrow> session_listed s \<Longrightarrow> run_cells cs s = Inr s' \<Longrightarrow> session_listed s'"
proof (induction cs arbitrary: s)
  case Nil
  then show ?case by (simp add: run_cells_def)
next
  case (Cons c cs)
  from Cons.prems(3) obtain s1 where s1: "c s = Inr s1" and r: "run_cells cs s1 = Inr s'"
    by (auto simp add: run_cells_def split: sum.splits)
  from Cons.prems(1) have "c \<in> set (cells sim)" by simp
  from cells_listed[OF this Cons.prems(2) s1] have "session_listed s1" .
  with Cons.IH[of s1] Cons.prems(1) r show ?case by simp
qed

lemma notebook_upto_listed:
  assumes "notebook_upto k sim = Inr s"
  shows "session_listed s"
proof -
  have "session_listed cell_2"
    by (simp add: session_listed_def cell_2_def QuantumCircuit_def only_listed_gates_def)
  moreover have "set (take k (cells sim)) \<subseteq> set (cells sim)"
    by (rule set_take_subset)
  ultimately show ?thesis
    using assms run_cells_listed unfolding notebook_upto_def by blast
qed

section \<open>Auxiliary facts: the run over any backend\<close>

lemma notebook_upto_4_any:
  "notebook_upto 4 sim =
     and_then (run_statevector sim \<lparr>num_qubits = 2, num_clbits = 0, data = grover_ops @ [SaveStatevector]\<rparr>)
       (\<lambda>sv. Inr \<lparr>grover_circuit = \<lparr>num_qubits = 2, num_clbits = 0, data = grover_ops\<rparr>,
                   grover_circuit_sim =
                     Some \<lparr>num_qubits = 2, num_clbits = 0, data = grover_ops @ [SaveStatevector]\<rparr>,
                   statevec = Some sv, counts = None, sim_runs = 1\<rparr>)"
proof -
  have "notebook_upto 4 sim = and_then (notebook_upto 3 sim) (cell_8 sim)"
    using notebook_upto_Suc[of 3 sim] by (simp add: cells_def eval_nat_numeral)
  then show ?thesis
    by (simp add: notebook_upto_3 and_then_def cell_8_def Let_def circuit_copy_def save_statevector_def
        append_instruction_def split: sum.splits)
qed

lemma notebook_eq: "notebook sim = and_then (notebook_upto 4 sim) (cell_9 sim)"
proof -
  have "notebook sim = notebook_upto 5 sim"
    by (simp add: notebook_def notebook_upto_def cells_def)
  also have "\<dots> = and_then (notebook_upto 4 sim) (cell_9 sim)"
    using notebook_upto_Suc[of 4 sim] by (simp add: cells_def eval_nat_numeral)
  finally show ?thesis .
qed

lemma notebook_upto_ge_5: "5 \<le> k \<Longrightarrow> notebook_upto k sim = notebook sim"
  by (simp add: notebook_def notebook_upto_def cells_def)

lemma measure_all_grover:
  "measure_all \<lparr>num_qubits = 2, num_clbits = 0, data = grover_ops\<rparr>
   = \<lparr>num_qubits = 2, num_clbits = 2, data = grover_ops @ [Barrier [0, 1], Measure 0 0, Measure 1 1]\<rparr>"
  by (simp add: measure_all_def upt_0_2)

lemma notebook_any:
  "notebook sim =
     and_then (run_statevector sim \<lparr>num_qubits = 2, num_clbits = 0, data = grover_ops @ [SaveStatevector]\<rparr>)
       (\<lambda>sv. and_then (run_counts sim
                  \<lparr>num_qubits = 2, num_clbits = 2,
                     data = grover_ops @ [Barrier [0, 1], Measure 0 0, Measure 1 1]\<rparr>)
       (\<lambda>k. Inr \<lparr>grover_circuit =
                     \<lparr>num_qubits = 2, num_clbits = 2,
                        data = grover_ops @ [Barrier [0, 1], Measure 0 0, Measure 1 1]\<rparr>,
                  grover_circuit_sim =
                     Some \<lparr>num_qubits = 2, num_clbits = 0, data = grover_ops @ [SaveStatevector]\<rparr>,
                  statevec = Some sv, counts = Some k, sim_runs = 2\<rparr>))"
  by (simp add: notebook_eq notebook_upto_4_any and_then_def cell_9_def Let_def measure_all_grover
      split: sum.splits)






lemma example_backend_runs:
  "notebook_upto 4 example_backend =
     Inr \<lparr>grover_circuit = \<lparr>num_qubits = 2, num_clbits = 0, data = grover_ops\<rparr>,
          grover_circuit_sim = Some \<lparr>num_qubits = 2, num_clbits = 0, data = grover_ops @ [SaveStatevector]\<rparr>,
          statevec = Some [0, 0, 0, 1], counts = None, sim_runs = 1\<rparr>"
  "notebook example_backend =
     Inr \<lparr>grover_circuit = \<lparr>num_qubits = 2, num_clbits = 2,
                              data = grover_ops @ [Barrier [0, 1], Measure 0 0, Measure 1 1]\<rparr>,
          grover_circuit_sim = Some \<lparr>num_qubits = 2, num_clbits = 0, data = grover_ops @ [SaveStatevector]\<rparr>,
          statevec = Some [0, 0, 0, 1], counts = Some [(''11'', 1024)], sim_runs = 2\<rparr>"
  by (simp_all add: notebook_upto_4_any notebook_any example_backend_def aer_simulator_def
      aer_statevector_grover and_then_def)

section \<open>The claims\<close>

text \<open>
  C1. The fixed two-qubit circuit applies a Hadamard gate to both qubits, then the oracle
  CZ(0,1), then the diffuser (H on both qubits, Z on both qubits, CZ(0,1), H on both
  qubits). Run up to the statevector cell on the simulator, the statevector it saves gives
  probability 1 to \<open>|11\<rangle>\<close> (index 3) and probability 0 to \<open>|00\<rangle>\<close>, \<open>|01\<rangle>\<close> and \<open>|10\<rangle>\<close>.
\<close>

theorem grover_probability_one:
  "\<exists>s sv. notebook_upto 4 (aer_simulator sampler) = Inr s \<and> data (grover_circuit s) = grover_ops \<and>
          statevec s = Some sv \<and> probabilities sv = [0, 0, 0, 1]"
  by (simp add: notebook_upto_4 probabilities_def)

theorem grover_probability_one_witness:
  "\<exists>s sv. notebook_upto 4 example_backend = Inr s \<and> data (grover_circuit s) = grover_ops \<and>
          statevec s = Some sv \<and> probabilities sv = [0, 0, 0, 1]"
  using grover_probability_one[of "\<lambda>c. Inr [(''11'', 1024)]"] by (simp add: example_backend_def)

text \<open>
  C2. For every \<open>nqubits \<ge> 2\<close>, \<open>diffuser(nqubits)\<close> returns a gate whose definition is the
  sequence H on every qubit, X on every qubit, H on the last qubit, the multi-controlled
  Toffoli from qubits \<open>0..nqubits-2\<close> to the last qubit, H on the last qubit, X on every
  qubit, H on every qubit, and that gate implements the inversion about the mean
  \<open>2|s\<rangle>\<langle>s| - I\<close> up to a global phase (the phase is \<open>-1\<close>).
\<close>

theorem diffuser_inverts_about_mean:
  assumes "2 \<le> nqubits"
  shows "\<exists>U_s. diffuser nqubits = Inr U_s \<and> gate_definition U_s = diffuser_ops nqubits \<and>
           equal_up_to_global_phase nqubits (gate_unitary U_s) (inversion_about_mean nqubits)"
proof -
  have "0 < nqubits" using assms by simp
  then have "\<forall>\<psi> i. i < 2 ^ nqubits \<longrightarrow> evolve (diffuser_ops nqubits) \<psi> i = (- 1) * inversion_about_mean nqubits \<psi> i"
    by (simp add: diffuser_ops_inversion)
  moreover have "cmod (- 1) = 1" by simp
  ultimately have "equal_up_to_global_phase nqubits (evolve (diffuser_ops nqubits)) (inversion_about_mean nqubits)"
    unfolding equal_up_to_global_phase_def by blast
  then show ?thesis
    by (simp add: diffuser_ok[OF assms] gate_unitary_def)
qed

theorem diffuser_inverts_about_mean_witness:
  "(2::nat) \<le> 2 \<and>
   (\<exists>U_s. diffuser 2 = Inr U_s \<and> gate_definition U_s = diffuser_ops 2 \<and>
      equal_up_to_global_phase 2 (gate_unitary U_s) (inversion_about_mean 2))"
  using diffuser_inverts_about_mean[of 2] by simp

text \<open>
  C3. The oracle cell appends CZ(0,1) to the two-qubit circuit, and CZ(0,1) marks \<open>|11\<rangle>\<close> by
  phase inversion: on every statevector it negates the amplitude of \<open>|11\<rangle>\<close> and leaves the
  amplitudes of \<open>|00\<rangle>\<close>, \<open>|01\<rangle>\<close> and \<open>|10\<rangle>\<close> unchanged.
\<close>

theorem oracle_phase_inversion:
  assumes "num_qubits (grover_circuit s) = 2"
  shows "cell_6 s = Inr (s\<lparr>grover_circuit := (grover_circuit s)\<lparr>data := data (grover_circuit s) @ [CZ 0 1]\<rparr>\<rparr>) \<and>
         evolve [CZ 0 1] \<psi> 3 = - \<psi> 3 \<and>
         evolve [CZ 0 1] \<psi> 0 = \<psi> 0 \<and> evolve [CZ 0 1] \<psi> 1 = \<psi> 1 \<and> evolve [CZ 0 1] \<psi> 2 = \<psi> 2"
  using assms by (simp add: cell_6_appends evolve_def cz_gate_def bits_3)

theorem oracle_phase_inversion_witness:
  "num_qubits (grover_circuit cell_2) = 2 \<and>
   cell_6 cell_2 = Inr (cell_2\<lparr>grover_circuit := (grover_circuit cell_2)\<lparr>data := data (grover_circuit cell_2) @ [CZ 0 1]\<rparr>\<rparr>) \<and>
   evolve [CZ 0 1] (\<lambda>i. complex_of_real (real i)) 3 = - 3 \<and>
   evolve [CZ 0 1] (\<lambda>i. complex_of_real (real i)) 2 = 2"
proof -
  have "num_qubits (grover_circuit cell_2) = 2"
    by (simp add: cell_2_def QuantumCircuit_def notebook_n_def)
  from oracle_phase_inversion[OF this, of "\<lambda>i. complex_of_real (real i)"] this show ?thesis
    by simp
qed

text \<open>
  C4. The inline diffuser that cell 7 applies (H on qubits 0 and 1, Z on qubits 0 and 1,
  CZ(0,1), H on qubits 0 and 1) equals, up to a global phase, the gate that the
  commented-out alternative \<open>diffuser(2)\<close> returns.
\<close>

theorem inline_diffuser_equivalent:
  "\<exists>s U_s. cell_7 cell_2 = Inr s \<and> data (grover_circuit s) = inline_ops \<and>
           diffuser notebook_n = Inr U_s \<and>
           equal_up_to_global_phase 2 (evolve (data (grover_circuit s))) (gate_unitary U_s)"
proof -
  have "cmod (- 1) = 1" by simp
  moreover have "\<forall>\<psi> i. i < 2 ^ 2 \<longrightarrow> evolve inline_ops \<psi> i = (- 1) * evolve (diffuser_ops 2) \<psi> i"
    by (simp add: inline_ops_diffuser_ops)
  ultimately have "equal_up_to_global_phase 2 (evolve inline_ops) (evolve (diffuser_ops 2))"
    unfolding equal_up_to_global_phase_def by blast
  then show ?thesis
    by (simp add: cell_7_appends cell_2_def QuantumCircuit_def notebook_n_def diffuser_ok gate_unitary_def)
qed

theorem inline_diffuser_equivalent_witness:
  "\<exists>s U_s c. cell_7 cell_2 = Inr s \<and> diffuser notebook_n = Inr U_s \<and> cmod c = 1 \<and>
      evolve (data (grover_circuit s)) zero_state 3 = c * gate_unitary U_s zero_state 3"
proof -
  from inline_diffuser_equivalent obtain s U_s where
    s: "cell_7 cell_2 = Inr s" "diffuser notebook_n = Inr U_s"
    and e: "equal_up_to_global_phase 2 (evolve (data (grover_circuit s))) (gate_unitary U_s)"
    by blast
  from e obtain c where "cmod c = 1"
    and "\<forall>\<psi> i. i < 2 ^ 2 \<longrightarrow> evolve (data (grover_circuit s)) \<psi> i = c * gate_unitary U_s \<psi> i"
    unfolding equal_up_to_global_phase_def by blast
  then have "cmod c = 1 \<and> evolve (data (grover_circuit s)) zero_state 3 = c * gate_unitary U_s zero_state 3"
    by simp
  with s show ?thesis by blast
qed

text \<open>
  C5. For every circuit and every list of qubit indices of that circuit,
  \<open>initialize_s(circuit, qubits)\<close> returns the given circuit with exactly one Hadamard gate
  appended per element of \<open>qubits\<close>, in list order, and nothing else changed; an index the
  circuit does not have ends the call with the SDK's exception. \<open>diffuser\<close> appends its
  gates to a fresh circuit object, which it converts to the gate it returns.
\<close>

theorem initialize_s_appends_hadamards:
  "(qubit_indices c qubits = Inr ks \<longrightarrow>
      initialize_s c qubits = Inr (c\<lparr>data := data c @ map H ks\<rparr>) \<and> length ks = length qubits) \<and>
   (qubit_indices c qubits = Inl e \<longrightarrow> initialize_s c qubits = Inl e) \<and>
   (2 \<le> nqubits \<longrightarrow>
      diffuser_circuit nqubits = Inr \<lparr>num_qubits = nqubits, num_clbits = 0, data = diffuser_ops nqubits\<rparr> \<and>
      diffuser nqubits = Inr \<lparr>gate_name = ''U$_s$'', gate_num_qubits = nqubits,
                                gate_definition = diffuser_ops nqubits\<rparr>)"
  by (simp add: initialize_s_def for_each_h_resolved for_each_h_unresolved diffuser_circuit_ok diffuser_ok)

theorem initialize_s_appends_hadamards_witness:
  "qubit_indices (QuantumCircuit 2) [0, 1] = Inr [0, 1] \<and>
   initialize_s (QuantumCircuit 2) [0, 1] = Inr \<lparr>num_qubits = 2, num_clbits = 0, data = [H 0, H 1]\<rparr> \<and>
   qubit_indices (QuantumCircuit 2) [0, 2] = Inl CircuitError \<and>
   initialize_s (QuantumCircuit 2) [0, 2] = Inl CircuitError \<and>
   (2::nat) \<le> 2 \<and>
   diffuser_circuit 2 = Inr \<lparr>num_qubits = 2, num_clbits = 0, data = diffuser_ops 2\<rparr> \<and>
   diffuser 2 = Inr \<lparr>gate_name = ''U$_s$'', gate_num_qubits = 2, gate_definition = diffuser_ops 2\<rparr>"
proof -
  have a: "qubit_indices (QuantumCircuit 2) [0, 1] = Inr [0, 1]"
    and b: "qubit_indices (QuantumCircuit 2) [0, 2] = Inl CircuitError"
    by (simp_all add: QuantumCircuit_def qubit_index_def)
  show ?thesis
    using initialize_s_appends_hadamards[of "QuantumCircuit 2" "[0, 1]" "[0, 1]" CircuitError 2]
      initialize_s_appends_hadamards[of "QuantumCircuit 2" "[0, 2]" "[]" CircuitError 2] a b
    by (simp add: QuantumCircuit_def)
qed

text \<open>
  C6. Every gate the code appends to a circuit is a Hadamard, a Pauli X, a Pauli Z, a
  controlled Z or a multi-controlled Toffoli, addressed by qubit index: this holds of the
  notebook's circuit and of its copy after any number of cells, on any backend, of the
  gate \<open>diffuser\<close> returns, and \<open>initialize_s\<close> keeps it. The other instructions appended
  (the snapshot, the barrier and the measurements) are not gates.
\<close>

theorem appended_gates_are_listed:
  "(notebook_upto k sim = Inr s \<longrightarrow>
      only_listed_gates (data (grover_circuit s)) \<and>
      (\<forall>c. grover_circuit_sim s = Some c \<longrightarrow> only_listed_gates (data c))) \<and>
   (diffuser nqubits = Inr U_s \<longrightarrow> list_all listed_gate (gate_definition U_s)) \<and>
   (initialize_s c qubits = Inr c' \<longrightarrow> only_listed_gates (data c) \<longrightarrow> only_listed_gates (data c'))"
  using notebook_upto_listed[of k sim s] diffuser_listed[of nqubits U_s] for_each_listed(1)[of qubits c c']
  by (auto simp add: session_listed_def initialize_s_def)

theorem appended_gates_are_listed_witness:
  "\<exists>s c U_s c'. notebook example_backend = Inr s \<and> only_listed_gates (data (grover_circuit s)) \<and>
      grover_circuit_sim s = Some c \<and> only_listed_gates (data c) \<and>
      diffuser 2 = Inr U_s \<and> list_all listed_gate (gate_definition U_s) \<and>
      initialize_s (QuantumCircuit 2) [0, 1] = Inr c' \<and> only_listed_gates (data (QuantumCircuit 2)) \<and>
      only_listed_gates (data c')"
proof -
  obtain s c where s: "notebook_upto 5 example_backend = Inr s" "notebook example_backend = Inr s"
    and c: "grover_circuit_sim s = Some c"
    by (simp add: notebook_upto_ge_5 example_backend_runs)
  obtain U_s where U: "diffuser 2 = Inr U_s"
    by (simp add: diffuser_ok)
  obtain c' where c': "initialize_s (QuantumCircuit 2) [0, 1] = Inr c'"
    by (simp add: initialize_s_def circuit_h_def qubit_index_def QuantumCircuit_def)
  have e: "only_listed_gates (data (QuantumCircuit 2))"
    by (simp add: QuantumCircuit_def only_listed_gates_def)
  from appended_gates_are_listed[of 5 example_backend s 2 U_s "QuantumCircuit 2" "[0, 1]" c'] s c U c' e
  show ?thesis by blast
qed







text \<open>
  C9. For every \<open>nqubits \<ge> 2\<close>, the gate \<open>diffuser(nqubits)\<close> returns is an involution:
  applied twice it is the identity on every statevector.
\<close>

theorem diffuser_involution:
  assumes "2 \<le> nqubits"
  shows "\<exists>U_s. diffuser nqubits = Inr U_s \<and> (\<forall>\<psi>. gate_unitary U_s (gate_unitary U_s \<psi>) = \<psi>)"
  using assms by (simp add: diffuser_ok gate_unitary_def diffuser_ops_invol)

theorem diffuser_involution_witness:
  "(2::nat) \<le> 2 \<and> (\<exists>U_s. diffuser 2 = Inr U_s \<and> (\<forall>\<psi>. gate_unitary U_s (gate_unitary U_s \<psi>) = \<psi>))"
  using diffuser_involution[of 2] by simp

text \<open>
  C10, as amended. The exact final statevector of the two-qubit circuit (Hadamards, oracle
  CZ(0,1), inline diffuser) is \<open>+|11\<rangle>\<close>: the amplitude of \<open>|11\<rangle>\<close> is exactly 1 and the other
  three are exactly 0.
\<close>

theorem final_statevector_plus_11:
  "\<exists>s. notebook_upto 4 (aer_simulator sampler) = Inr s \<and> data (grover_circuit s) = grover_ops \<and>
       statevec s = Some [0, 0, 0, 1]"
  by (simp add: notebook_upto_4)

theorem final_statevector_plus_11_witness:
  "\<exists>s. notebook_upto 4 example_backend = Inr s \<and> data (grover_circuit s) = grover_ops \<and>
       statevec s = Some [0, 0, 0, 1]"
  using final_statevector_plus_11[of "\<lambda>c. Inr [(''11'', 1024)]"] by (simp add: example_backend_def)

text \<open>
  C10 as stated has the amplitude \<open>-1\<close>; the statevector the run saves is not
  \<open>[0, 0, 0, -1]\<close>.
\<close>

theorem final_statevector_minus_11_counterexample:
  "map_sum id statevec (notebook_upto 4 example_backend) \<noteq> Inr (Some [0, 0, 0, - 1])"
  by (simp add: example_backend_runs)

end
